theory Spec2Isabelle
  imports Main "HOL-Library.AList"
begin

section \<open>Values, DOM nodes and objects\<close>

text \<open>
  The component base class \<^verbatim>\<open>Block\<close> of \<^verbatim>\<open>src/utils/Block.ts\<close> works on untyped
  JavaScript values (its constructor takes \<^verbatim>\<open>any\<close>). The values the class
  distinguishes are kept apart: \<^verbatim>\<open>undefined\<close>, \<^verbatim>\<open>null\<close>, booleans, numbers
  (integers only), strings, functions (an identity and the source text that string
  conversion yields), plain objects, arrays and \<^verbatim>\<open>Block\<close> instances. A \<^verbatim>\<open>Block\<close>
  met as a value is seen through the two members another component reads from it:
  \<^verbatim>\<open>_id\<close> and what \<^verbatim>\<open>getContent()\<close> returns.

  A plain object is the list of its own enumerable properties in enumeration order;
  writing a key keeps the position of a key that is there and appends a new one
  (\<^const>\<open>AList.update\<close>). Keys that are array indices, which JavaScript enumerates
  before the others, are not treated apart. Numbers are integers below \<open>10\<^sup>2\<^sup>1\<close> in
  magnitude, which string conversion writes in decimal digits.
\<close>

datatype listener = Callback nat | ListenerObject

datatype node =
    Element (tag: string) (attrs: "(string \<times> string) list") (classList: "string list")
            (listeners: "(string \<times> listener) list") (display: string)
            (childNodes: "node list")
  | TextNode string

datatype jsvalue =
    VUndefined
  | VNull
  | VBool bool
  | VNum int
  | VStr string
  | VFun nat string
  | VObj "(string \<times> jsvalue) list"
  | VArr "jsvalue list"
  | VBlock string "node option"

type_synonym obj = "(string \<times> jsvalue) list"

text \<open>
  \<^verbatim>\<open>ob[k] = v\<close> on a plain object: an own property is written or added, except that
  the name \<^verbatim>\<open>__proto__\<close>, when it is not an own property, reaches the setter inherited
  from \<^verbatim>\<open>Object.prototype\<close> and stores no own property (the prototype that an object
  value then becomes is not followed).
\<close>

definition write_key :: "string \<Rightarrow> jsvalue \<Rightarrow> obj \<Rightarrow> obj" where
  "write_key k v ob =
     (if k = ''__proto__'' \<and> map_of ob k = None then ob else AList.update k v ob)"

text \<open>JavaScript truthiness, as tested by \<^verbatim>\<open>!x\<close> and \<^verbatim>\<open>if (x)\<close>.\<close>

fun truthy :: "jsvalue \<Rightarrow> bool" where
  "truthy VUndefined = False"
| "truthy VNull = False"
| "truthy (VBool b) = b"
| "truthy (VNum n) = (n \<noteq> 0)"
| "truthy (VStr s) = (s \<noteq> [])"
| "truthy _ = True"

text \<open>\<^verbatim>\<open>val instanceof Block\<close>\<close>

fun instanceof_Block :: "jsvalue \<Rightarrow> bool" where
  "instanceof_Block (VBlock i e) = True"
| "instanceof_Block _ = False"

section \<open>Splitting the construction bag\<close>

text \<open>
  \<^verbatim>\<open>_getChildrenAndProps\<close> (lines 50-69). For an array the inner \<^verbatim>\<open>forEach\<close> assigns
  \<^verbatim>\<open>children[key] = value\<close> once for every element that is a \<^verbatim>\<open>Block\<close>; an array
  with no such element reaches neither assignment.
\<close>

fun children_of_array :: "string \<Rightarrow> jsvalue \<Rightarrow> jsvalue list \<Rightarrow> obj \<Rightarrow> obj" where
  "children_of_array key v [] children = children"
| "children_of_array key v (val # vals) children =
     children_of_array key v vals
       (if instanceof_Block val then write_key key v children else children)"

fun route_entry :: "string \<times> jsvalue \<Rightarrow> obj \<times> obj \<Rightarrow> obj \<times> obj" where
  "route_entry (key, VArr vals) (props, children) =
     (props, children_of_array key (VArr vals) vals children)"
| "route_entry (key, VBlock i e) (props, children) =
     (props, write_key key (VBlock i e) children)"
| "route_entry (key, v) (props, children) = (write_key key v props, children)"

definition getChildrenAndProps :: "obj \<Rightarrow> obj \<times> obj" where
  "getChildrenAndProps childrenAndProps = fold route_entry childrenAndProps ([], [])"

section \<open>String helpers\<close>

text \<open>Decimal numerals, for array indices used as property names and for numbers in text.\<close>

definition digit :: "nat \<Rightarrow> char" where
  "digit d = char_of (48 + d)"

function decimal :: "nat \<Rightarrow> string" where
  "decimal n = (if n < 10 then [digit n] else decimal (n div 10) @ [digit (n mod 10)])"
  by pat_completeness auto
termination
  by (relation "measure id") auto

text \<open>
  \<^verbatim>\<open>String(x)\<close>, as a template literal applies it. An array joins its elements with
  commas, \<^verbatim>\<open>null\<close> and \<^verbatim>\<open>undefined\<close> elements giving the empty string.
\<close>

fun join_comma :: "string list \<Rightarrow> string" where
  "join_comma [] = []"
| "join_comma [s] = s"
| "join_comma (s # t # ss) = s @ '','' @ join_comma (t # ss)"

fun to_string :: "jsvalue \<Rightarrow> string" where
  "to_string VUndefined = ''undefined''"
| "to_string VNull = ''null''"
| "to_string (VBool b) = (if b then ''true'' else ''false'')"
| "to_string (VNum n) = (if n < 0 then ''-'' @ decimal (nat (- n)) else decimal (nat n))"
| "to_string (VStr s) = s"
| "to_string (VFun f src) = src"
| "to_string (VObj kvs) = ''[object Object]''"
| "to_string (VArr vs) =
     join_comma (map (\<lambda>v. if v = VNull \<or> v = VUndefined then [] else to_string v) vs)"
| "to_string (VBlock i e) = ''[object Object]''"

text \<open>\<^verbatim>\<open>s.split(' ')\<close>: the pieces between single spaces, empty pieces kept.\<close>

fun split_space :: "string \<Rightarrow> string list" where
  "split_space [] = [[]]"
| "split_space (c # cs) =
     (if c = CHR '' '' then [] # split_space cs
      else (case split_space cs of [] \<Rightarrow> [[c]] | w # ws \<Rightarrow> (c # w) # ws))"

text \<open>
  The own enumerable properties that \<^verbatim>\<open>Object.keys\<close>, \<^verbatim>\<open>Object.entries\<close> and
  \<^verbatim>\<open>Object.assign\<close> walk through, for a value other than \<^verbatim>\<open>null\<close> and
  \<^verbatim>\<open>undefined\<close>: the entries of a plain object, the indexed elements of an array,
  the indexed characters of a string, none for a boolean, a number or a function.
  Of a \<^verbatim>\<open>Block\<close> instance only the first own property, the field \<^verbatim>\<open>_id\<close>, is
  listed; the later ones are never looked at by the results below.
\<close>

fun indexed :: "nat \<Rightarrow> jsvalue list \<Rightarrow> obj" where
  "indexed n [] = []"
| "indexed n (v # vs) = (decimal n, v) # indexed (Suc n) vs"

fun own_entries :: "jsvalue \<Rightarrow> obj" where
  "own_entries (VObj kvs) = kvs"
| "own_entries (VArr vs) = indexed 0 vs"
| "own_entries (VStr s) = indexed 0 (map (\<lambda>c. VStr [c]) s)"
| "own_entries (VBlock i e) = [(''_id'', VStr i)]"
| "own_entries _ = []"

section \<open>Component state\<close>

text \<open>
  What an operation can throw: the two errors of the component itself
  (\<^verbatim>\<open>emit\<close> on an event without listeners, \<^verbatim>\<open>deleteProperty\<close>) and the
  exceptions of the host (a \<^verbatim>\<open>TypeError\<close> on a member of \<^verbatim>\<open>null\<close> or on a value
  of the wrong kind, the two DOM exceptions of \<^verbatim>\<open>classList.add\<close>).
\<close>

datatype error = UnknownEvent | InvalidOperation | TypeError | SyntaxError | InvalidCharacterError

text \<open>The static table \<^verbatim>\<open>Block.EVENTS\<close> (lines 5-10).\<close>

datatype event = INIT | FLOW_CDM | FLOW_CDU | FLOW_RENDER

text \<open>
  An object handed to a handler is a reference together with its contents at the time
  of the call, so that \<^verbatim>\<open>!==\<close> on two objects compares the references.
\<close>

type_synonym objref = "nat \<times> obj"

text \<open>
  The effects that leave the instance are kept in a log: every call of \<^verbatim>\<open>emit\<close> on
  the bus with its arguments, every call of an overridable hook, and every
  \<^verbatim>\<open>replaceWith\<close> on the rendered node (old node, new node).
\<close>

datatype effect = Emit event "objref list" | Called string | ReplaceWith node node

text \<open>
  The members a subclass sees (\<^verbatim>\<open>_id\<close>, \<^verbatim>\<open>props\<close>, \<^verbatim>\<open>children\<close>,
  \<^verbatim>\<open>_element\<close>), and the whole instance: the reference of the object behind the
  props proxy (\<^verbatim>\<open>_meta.props\<close> is the same object), the next unused reference, the
  events for which \<^verbatim>\<open>on\<close> was called on the private bus, in order, and the log.
\<close>

record block =
  block_id :: string
  props :: obj
  children :: obj
  element :: "node option"

record component =
  self :: block
  props_ref :: nat
  next_ref :: nat
  bus :: "event list"
  trace :: "effect list"

text \<open>
  An operation returns the instance as it has left it, and the exception if it threw:
  what was written before a \<^verbatim>\<open>throw\<close> stays written.
\<close>

type_synonym op = "component \<Rightarrow> error option \<times> component"

definition ok :: op where
  "ok s = (None, s)"

definition throw :: "error \<Rightarrow> op" where
  "throw e s = (Some e, s)"

definition andThen :: "op \<Rightarrow> op \<Rightarrow> op" where
  "andThen f g s = (case f s of (None, s') \<Rightarrow> g s' | (Some e, s') \<Rightarrow> (Some e, s'))"

text \<open>
  The overridable methods. \<^verbatim>\<open>init\<close> and \<^verbatim>\<open>componentDidMount\<close> are empty in
  \<^verbatim>\<open>Block\<close>, \<^verbatim>\<open>componentDidUpdate\<close> compares the two references, \<^verbatim>\<open>render\<close>
  returns an empty fragment. An override of \<^verbatim>\<open>init\<close> or of \<^verbatim>\<open>componentDidMount\<close> is
  any operation on the component: it may write props, call \<^verbatim>\<open>setProps\<close> or any other
  method, and throw. An override of \<^verbatim>\<open>componentDidUpdate\<close> or of \<^verbatim>\<open>render\<close> is a
  function of the members it can see; a \<^verbatim>\<open>render\<close> override may throw.
\<close>

record hooks =
  init :: op
  componentDidMount :: op
  componentDidUpdate :: "block \<Rightarrow> objref \<Rightarrow> objref \<Rightarrow> bool"
  render :: "block \<Rightarrow> error + node list"

definition Block_hooks :: hooks where
  "Block_hooks =
     \<lparr> init = ok,
       componentDidMount = ok,
       componentDidUpdate = (\<lambda>b oldProps newProps. fst oldProps \<noteq> fst newProps),
       render = (\<lambda>b. Inr []) \<rparr>"

definition record_effect :: "effect \<Rightarrow> component \<Rightarrow> component" where
  "record_effect e s = s\<lparr>trace := trace s @ [e]\<rparr>"

definition set_element :: "node option \<Rightarrow> component \<Rightarrow> component" where
  "set_element e s = s\<lparr>self := (self s)\<lparr>element := e\<rparr>\<rparr>"

section \<open>The rendered node: listeners, classes, visibility\<close>

text \<open>
  \<^verbatim>\<open>addEventListener\<close> and \<^verbatim>\<open>removeEventListener\<close> take a function or an object
  as listener, ignore \<^verbatim>\<open>null\<close> and \<^verbatim>\<open>undefined\<close>, and throw a \<^verbatim>\<open>TypeError\<close> on
  any other value. A listener that is already registered is not registered twice.
\<close>

fun as_listener :: "jsvalue \<Rightarrow> error + listener option" where
  "as_listener (VFun f src) = Inr (Some (Callback f))"
| "as_listener VNull = Inr None"
| "as_listener VUndefined = Inr None"
| "as_listener (VObj kvs) = Inr (Some ListenerObject)"
| "as_listener (VArr vs) = Inr (Some ListenerObject)"
| "as_listener (VBlock i e) = Inr (Some ListenerObject)"
| "as_listener _ = Inl TypeError"

fun addEventListener :: "string \<Rightarrow> listener \<Rightarrow> node \<Rightarrow> node" where
  "addEventListener n l (Element t a c ls d k) =
     Element t a c (if (n, l) \<in> set ls then ls else ls @ [(n, l)]) d k"
| "addEventListener n l (TextNode x) = TextNode x"

fun removeEventListener :: "string \<Rightarrow> listener \<Rightarrow> node \<Rightarrow> node" where
  "removeEventListener n l (Element t a c ls d k) = Element t a c (remove1 (n, l) ls) d k"
| "removeEventListener n l (TextNode x) = TextNode x"

fun add_listeners :: "obj \<Rightarrow> node \<Rightarrow> error option \<times> node" where
  "add_listeners [] el = (None, el)"
| "add_listeners ((eventName, v) # rest) el =
     (case as_listener v of
        Inl e \<Rightarrow> (Some e, el)
      | Inr None \<Rightarrow> add_listeners rest el
      | Inr (Some l) \<Rightarrow> add_listeners rest (addEventListener eventName l el))"

fun remove_listeners :: "obj \<Rightarrow> node \<Rightarrow> error option \<times> node" where
  "remove_listeners [] el = (None, el)"
| "remove_listeners ((eventName, v) # rest) el =
     (case as_listener v of
        Inl e \<Rightarrow> (Some e, el)
      | Inr None \<Rightarrow> remove_listeners rest el
      | Inr (Some l) \<Rightarrow> remove_listeners rest (removeEventListener eventName l el))"

text \<open>
  \<^verbatim>\<open>const { events = {} } = this.props\<close> followed by \<^verbatim>\<open>Object.keys(events)\<close>: the
  default stands in for a missing or \<^verbatim>\<open>undefined\<close> entry only, and the keys of
  \<^verbatim>\<open>null\<close> cannot be taken.
\<close>

definition events_of :: "obj \<Rightarrow> error + obj" where
  "events_of p =
     (case map_of p ''events'' of
        None \<Rightarrow> Inr []
      | Some VUndefined \<Rightarrow> Inr []
      | Some VNull \<Rightarrow> Inl TypeError
      | Some v \<Rightarrow> Inr (own_entries v))"

text \<open>
  \<^verbatim>\<open>_addEvents\<close> (lines 230-238) calls through \<^verbatim>\<open>this._element?.\<close>, so nothing
  happens on a missing node; \<^verbatim>\<open>_removeEvents\<close> (lines 252-260) dereferences the node
  for every key.
\<close>

definition addEvents :: op where
  "addEvents s =
     (case events_of (props (self s)) of
        Inl e \<Rightarrow> throw e s
      | Inr evs \<Rightarrow>
          (case element (self s) of
             None \<Rightarrow> ok s
           | Some el \<Rightarrow>
               (case add_listeners evs el of (r, el') \<Rightarrow> (r, set_element (Some el') s))))"

definition removeEvents :: op where
  "removeEvents s =
     (case events_of (props (self s)) of
        Inl e \<Rightarrow> throw e s
      | Inr evs \<Rightarrow>
          (case element (self s) of
             None \<Rightarrow> (if evs = [] then ok s else throw TypeError s)
           | Some el \<Rightarrow>
               (case remove_listeners evs el of (r, el') \<Rightarrow> (r, set_element (Some el') s))))"

text \<open>
  \<^verbatim>\<open>classList.add(token)\<close> throws a \<^verbatim>\<open>SyntaxError\<close> on the empty token and an
  \<^verbatim>\<open>InvalidCharacterError\<close> on a token with white space, and adds a token once.
\<close>

definition is_space :: "char \<Rightarrow> bool" where
  "is_space c = (c \<in> set [CHR 0x09, CHR 0x0A, CHR 0x0C, CHR 0x0D, CHR 0x20])"

fun classList_add :: "string \<Rightarrow> node \<Rightarrow> error + node" where
  "classList_add tok (Element t a c ls d k) =
     (if tok = [] then Inl SyntaxError
      else if list_ex is_space tok then Inl InvalidCharacterError
      else Inr (Element t a (if tok \<in> set c then c else c @ [tok]) ls d k))"
| "classList_add tok (TextNode x) = Inr (TextNode x)"

fun add_classes :: "string list \<Rightarrow> node \<Rightarrow> error option \<times> node" where
  "add_classes [] el = (None, el)"
| "add_classes (className # rest) el =
     (case classList_add className el of
        Inl e \<Rightarrow> (Some e, el)
      | Inr el' \<Rightarrow> add_classes rest el')"

text \<open>
  \<^verbatim>\<open>_addClass\<close> (lines 240-250). Only a string has \<^verbatim>\<open>split\<close>; the node is
  dereferenced for the first class name.
\<close>

definition classes_of :: "obj \<Rightarrow> jsvalue" where
  "classes_of p =
     (case map_of p ''classes'' of None \<Rightarrow> VStr [] | Some VUndefined \<Rightarrow> VStr [] | Some v \<Rightarrow> v)"

definition addClass :: op where
  "addClass s =
     (let classes = classes_of (props (self s)) in
      if \<not> truthy classes then ok s
      else (case classes of
              VStr str \<Rightarrow>
                (case element (self s) of
                   None \<Rightarrow> throw TypeError s
                 | Some el \<Rightarrow>
                     (case add_classes (split_space str) el of
                        (r, el') \<Rightarrow> (r, set_element (Some el') s)))
            | _ \<Rightarrow> throw TypeError s))"

fun set_display :: "string \<Rightarrow> node \<Rightarrow> node" where
  "set_display v (Element t a c ls d k) = Element t a c ls v k"
| "set_display v (TextNode x) = TextNode x"

definition getContent :: "component \<Rightarrow> node option" where
  "getContent s = element (self s)"

text \<open>\<^verbatim>\<open>show\<close> and \<^verbatim>\<open>hide\<close> (lines 222-228) dereference \<^verbatim>\<open>getContent()\<close>.\<close>

definition show_block :: op where
  "show_block s =
     (case getContent s of
        None \<Rightarrow> throw TypeError s
      | Some el \<Rightarrow> ok (set_element (Some (set_display ''block'' el)) s))"

definition hide :: op where
  "hide s =
     (case getContent s of
        None \<Rightarrow> throw TypeError s
      | Some el \<Rightarrow> ok (set_element (Some (set_display ''none'' el)) s))"

section \<open>The event bus\<close>

text \<open>
  Modelled from the spec: the class \<^verbatim>\<open>EventBus\<close> (\<^verbatim>\<open>src/utils/EventBus.ts\<close>) is not
  among the sources. By section 4.1 of the specification \<^verbatim>\<open>on\<close> puts a handler at
  the end of the list of its event, registering twice invokes twice, and \<^verbatim>\<open>emit\<close>
  invokes every handler registered for the event, synchronously and in registration
  order, and fails with \<^verbatim>\<open>UnknownEvent\<close> when there is none. The bus of a
  \<^verbatim>\<open>Block\<close> is private and only \<^verbatim>\<open>_registerEvents\<close> calls \<^verbatim>\<open>on\<close>, binding each
  event to one method of the instance; so the bus is the list of the events registered,
  and \<^verbatim>\<open>emit\<close> is given the method bound to the event and runs it once for each
  registration.
\<close>

definition on :: "event \<Rightarrow> component \<Rightarrow> component" where
  "on ev s = s\<lparr>bus := bus s @ [ev]\<rparr>"

fun repeat_op :: "nat \<Rightarrow> op \<Rightarrow> op" where
  "repeat_op 0 f = ok"
| "repeat_op (Suc n) f = andThen f (repeat_op n f)"

definition emit :: "event \<Rightarrow> objref list \<Rightarrow> op \<Rightarrow> op" where
  "emit ev args handler s =
     (let s1 = record_effect (Emit ev args) s;
          n = count_list (bus s1) ev
      in if n = 0 then throw UnknownEvent s1 else repeat_op n handler s1)"

text \<open>\<^verbatim>\<open>_registerEvents\<close> (lines 71-76).\<close>

definition registerEvents :: "component \<Rightarrow> component" where
  "registerEvents s = on FLOW_RENDER (on FLOW_CDU (on FLOW_CDM (on INIT s)))"

section \<open>Lifecycle\<close>

text \<open>
  \<^verbatim>\<open>_render\<close> (lines 125-139). \<^verbatim>\<open>firstElementChild\<close> is the first child that is an
  element, or \<^verbatim>\<open>null\<close>. \<^verbatim>\<open>replaceWith(null)\<close> puts the text \<^verbatim>\<open>null\<close> in the place of
  the old node.
\<close>

fun firstElementChild :: "node list \<Rightarrow> node option" where
  "firstElementChild [] = None"
| "firstElementChild (Element t a c ls d k # ns) = Some (Element t a c ls d k)"
| "firstElementChild (TextNode x # ns) = firstElementChild ns"

definition replaceWith :: "node option \<Rightarrow> op" where
  "replaceWith newElement s =
     (case element (self s) of
        None \<Rightarrow> throw TypeError s
      | Some old \<Rightarrow>
          ok (record_effect
                (ReplaceWith old (case newElement of None \<Rightarrow> TextNode ''null'' | Some n \<Rightarrow> n)) s))"

definition render_internal :: "hooks \<Rightarrow> op" where
  "render_internal hk s =
     (let s1 = record_effect (Called ''render'') s in
      case render hk (self s1) of
        Inl e \<Rightarrow> throw e s1
      | Inr fragment \<Rightarrow>
          (let newElement = firstElementChild fragment in
           andThen
             (if element (self s1) \<noteq> None
              then andThen removeEvents (replaceWith newElement) else ok)
             (andThen (\<lambda>s2. ok (set_element newElement s2))
                (andThen addEvents addClass)) s1))"

text \<open>
  A call of an overridable method: the call is logged and the override runs on the
  component; what it throws is thrown by the call. The field \<^verbatim>\<open>eventBus\<close> is private
  to \<^verbatim>\<open>Block\<close>, so an override cannot register on the bus, and the bus is after the
  call what it was before.
\<close>

definition call_hook :: "string \<Rightarrow> op \<Rightarrow> op" where
  "call_hook name h s =
     (case h (record_effect (Called name) s) of (r, t) \<Rightarrow> (r, t\<lparr>bus := bus s\<rparr>))"

text \<open>\<^verbatim>\<open>_init\<close> (lines 80-86); \<^verbatim>\<open>_createResources\<close> is empty.\<close>

definition init_internal :: "hooks \<Rightarrow> op" where
  "init_internal hk =
     andThen (call_hook ''init'' (init hk)) (emit FLOW_RENDER [] (render_internal hk))"



text \<open>\<^verbatim>\<open>_componentDidUpdate\<close> (lines 101-106).\<close>

definition componentDidUpdate_internal :: "hooks \<Rightarrow> objref \<Rightarrow> objref \<Rightarrow> op" where
  "componentDidUpdate_internal hk oldProps newProps s =
     (let s1 = record_effect (Called ''componentDidUpdate'') s;
          response = componentDidUpdate hk (self s1) oldProps newProps
      in if response then emit FLOW_RENDER [] (render_internal hk) s1 else ok s1)"

section \<open>The props proxy and \<^verbatim>\<open>setProps\<close>\<close>

text \<open>
  The \<^verbatim>\<open>set\<close> trap of \<^verbatim>\<open>_makePropsProxy\<close> (lines 205-211): \<^verbatim>\<open>{ ...target }\<close> is a
  new object with the contents of the target before the write; the event carries it
  and the target itself. The write is that of a property name other than
  \<^verbatim>\<open>__proto__\<close>. The \<^verbatim>\<open>deleteProperty\<close> trap (lines 212-214) throws.
\<close>

definition proxy_set :: "hooks \<Rightarrow> string \<Rightarrow> jsvalue \<Rightarrow> op" where
  "proxy_set hk prop v s =
     (let oldTarget = (next_ref s, props (self s));
          s1 = s\<lparr>next_ref := Suc (next_ref s),
                 self := (self s)\<lparr>props := AList.update prop v (props (self s))\<rparr>\<rparr>;
          target = (props_ref s1, props (self s1))
      in emit FLOW_CDU [oldTarget, target] (componentDidUpdate_internal hk oldTarget target) s1)"

definition proxy_deleteProperty :: "string \<Rightarrow> op" where
  "proxy_deleteProperty prop = throw InvalidOperation"

text \<open>
  \<^verbatim>\<open>setProps\<close> (lines 112-119). \<^verbatim>\<open>Object.assign\<close> on the proxy writes the own
  enumerable properties of its source one after the other, each through the
  \<^verbatim>\<open>set\<close> trap.
\<close>

fun assign_all :: "hooks \<Rightarrow> obj \<Rightarrow> op" where
  "assign_all hk [] = ok"
| "assign_all hk ((k, v) # rest) = andThen (proxy_set hk k v) (assign_all hk rest)"

definition setProps :: "hooks \<Rightarrow> jsvalue \<Rightarrow> op" where
  "setProps hk nextProps s =
     (if \<not> truthy nextProps then ok s
      else andThen (assign_all hk (own_entries nextProps))
             (emit FLOW_RENDER [] (render_internal hk)) s)"

section \<open>Construction\<close>

text \<open>
  The constructor (lines 30-48) with the identifier that \<^verbatim>\<open>nanoid(6)\<close> yields as an
  argument. The props object gets reference 0.
\<close>

definition Block_new :: "hooks \<Rightarrow> string \<Rightarrow> obj \<Rightarrow> error option \<times> component" where
  "Block_new hk i propsWithChildren =
     (case getChildrenAndProps propsWithChildren of
        (p, c) \<Rightarrow>
          emit INIT [] (init_internal hk)
            (registerEvents
               \<lparr> self = \<lparr> block_id = i, props = p, children = c, element = None \<rparr>,
                 props_ref = 0, next_ref = 1, bus = [], trace = [] \<rparr>))"

section \<open>Composing children into the markup\<close>

text \<open>
  \<^verbatim>\<open>compile\<close> (lines 141-189). The template and the parser behind
  \<^verbatim>\<open>temp.innerHTML = html\<close> are collaborators and are parameters here.

  \<^verbatim>\<open>val._id\<close> inside the template literal: the identifier of a \<^verbatim>\<open>Block\<close>, a
  \<^verbatim>\<open>TypeError\<close> on \<^verbatim>\<open>null\<close> and \<^verbatim>\<open>undefined\<close>, the own property of that name of
  a plain object, and the text \<^verbatim>\<open>undefined\<close> for every other value.
  \<^verbatim>\<open>val.getContent()\<close> is the rendered node of a \<^verbatim>\<open>Block\<close> and a \<^verbatim>\<open>TypeError\<close>
  on a value without that method; \<^verbatim>\<open>replaceWith(null)\<close> inserts the text \<^verbatim>\<open>null\<close>.
  Identifiers are taken to be free of quotes and backslashes, as those of
  \<^verbatim>\<open>nanoid\<close> are, so that the selector is well formed.
\<close>

text \<open>
  \<^verbatim>\<open>ob[k]\<close> on a plain object: its own property, else the member of that name that it
  inherits from \<^verbatim>\<open>Object.prototype\<close> (eleven functions and the accessor
  \<^verbatim>\<open>__proto__\<close>, which yields the prototype itself), else \<^verbatim>\<open>undefined\<close>.
\<close>

definition inherited :: "string \<Rightarrow> jsvalue option" where
  "inherited k =
     (if k = ''__proto__'' then Some (VObj [])
      else if k = ''constructor'' then Some (VFun 0 ''function Object() { [native code] }'')
      else if k \<in> set [''__defineGetter__'', ''__defineSetter__'', ''hasOwnProperty'',
                         ''__lookupGetter__'', ''__lookupSetter__'', ''isPrototypeOf'',
                         ''propertyIsEnumerable'', ''toString'', ''valueOf'',
                         ''toLocaleString'']
      then Some (VFun 0 (''function '' @ k @ ''() { [native code] }''))
      else None)"

definition lookup :: "obj \<Rightarrow> string \<Rightarrow> jsvalue" where
  "lookup ob k =
     (case map_of ob k of
        Some v \<Rightarrow> v
      | None \<Rightarrow> (case inherited k of Some v \<Rightarrow> v | None \<Rightarrow> VUndefined))"


fun id_of :: "jsvalue \<Rightarrow> error + string" where
  "id_of (VBlock i e) = Inr i"
| "id_of VUndefined = Inl TypeError"
| "id_of VNull = Inl TypeError"
| "id_of (VObj kvs) = Inr (to_string (lookup kvs ''_id''))"
| "id_of _ = Inr ''undefined''"

fun content_of :: "jsvalue \<Rightarrow> error + node" where
  "content_of (VBlock i e) = Inr (case e of None \<Rightarrow> TextNode ''null'' | Some n \<Rightarrow> n)"
| "content_of _ = Inl TypeError"

definition stub :: "string \<Rightarrow> string" where
  "stub i = ''<div data-id='' @ [CHR 0x27] @ i @ [CHR 0x27] @ ''></div>''"

text \<open>The first loop (lines 144-159).\<close>

fun stubs_of_array :: "string \<Rightarrow> jsvalue list \<Rightarrow> obj \<Rightarrow> error + obj" where
  "stubs_of_array name [] contextAndStubs = Inr contextAndStubs"
| "stubs_of_array name (val # vals) contextAndStubs =
     (case id_of val of
        Inl e \<Rightarrow> Inl e
      | Inr i \<Rightarrow>
          stubs_of_array name vals
            (if \<not> truthy (lookup contextAndStubs name)
             then write_key name (VStr (stub i)) contextAndStubs
             else write_key name
                    (VStr (to_string (lookup contextAndStubs name) @ stub i)) contextAndStubs))"

fun add_stubs :: "obj \<Rightarrow> obj \<Rightarrow> error + obj" where
  "add_stubs [] contextAndStubs = Inr contextAndStubs"
| "add_stubs ((name, VArr vals) # rest) contextAndStubs =
     (case stubs_of_array name vals contextAndStubs of
        Inl e \<Rightarrow> Inl e
      | Inr c \<Rightarrow> add_stubs rest c)"
| "add_stubs ((name, component) # rest) contextAndStubs =
     (case id_of component of
        Inl e \<Rightarrow> Inl e
      | Inr i \<Rightarrow> add_stubs rest (write_key name (VStr (stub i)) contextAndStubs))"

text \<open>
  \<^verbatim>\<open>querySelector\<close> with the selector \<^verbatim>\<open>[data-id='...']\<close> finds the first element in
  tree order whose attribute has that value: an element before its descendants, these
  before its following siblings. \<^verbatim>\<open>replace_first\<close> puts a node in the place of that
  element.
\<close>

fun querySelector :: "string \<Rightarrow> node list \<Rightarrow> node option" where
  "querySelector i [] = None"
| "querySelector i (TextNode x # ns) = querySelector i ns"
| "querySelector i (Element t a c ls d k # ns) =
     (if map_of a ''data-id'' = Some i then Some (Element t a c ls d k)
      else (case querySelector i k of
              Some n \<Rightarrow> Some n
            | None \<Rightarrow> querySelector i ns))"

fun replace_first :: "string \<Rightarrow> node \<Rightarrow> node list \<Rightarrow> node list" where
  "replace_first i new [] = []"
| "replace_first i new (TextNode x # ns) = TextNode x # replace_first i new ns"
| "replace_first i new (Element t a c ls d k # ns) =
     (if map_of a ''data-id'' = Some i then new # ns
      else if querySelector i k \<noteq> None then Element t a c ls d (replace_first i new k) # ns
      else Element t a c ls d k # replace_first i new ns)"

text \<open>The second loop (lines 167-186).\<close>

definition substitute :: "jsvalue \<Rightarrow> node list \<Rightarrow> error + node list" where
  "substitute val content =
     (case id_of val of
        Inl e \<Rightarrow> Inl e
      | Inr i \<Rightarrow>
          (if querySelector i content = None then Inr content
           else (case content_of val of
                   Inl e \<Rightarrow> Inl e
                 | Inr n \<Rightarrow> Inr (replace_first i n content))))"

fun substitute_array :: "jsvalue list \<Rightarrow> node list \<Rightarrow> error + node list" where
  "substitute_array [] content = Inr content"
| "substitute_array (val # vals) content =
     (case substitute val content of
        Inl e \<Rightarrow> Inl e
      | Inr c \<Rightarrow> substitute_array vals c)"

fun substitute_children :: "obj \<Rightarrow> node list \<Rightarrow> error + node list" where
  "substitute_children [] content = Inr content"
| "substitute_children ((name, VArr vals) # rest) content =
     (case substitute_array vals content of
        Inl e \<Rightarrow> Inl e
      | Inr c \<Rightarrow> substitute_children rest c)"
| "substitute_children ((name, component) # rest) content =
     (case substitute component content of
        Inl e \<Rightarrow> Inl e
      | Inr c \<Rightarrow> substitute_children rest c)"

definition compile ::
  "(obj \<Rightarrow> string) \<Rightarrow> (string \<Rightarrow> node list) \<Rightarrow> obj \<Rightarrow> block \<Rightarrow> error + node list" where
  "compile template parse context b =
     (case add_stubs (children b) context of
        Inl e \<Rightarrow> Inl e
      | Inr contextAndStubs \<Rightarrow> substitute_children (children b) (parse (template contextAndStubs)))"

text \<open>The component \<^verbatim>\<open>Button\<close> (\<^verbatim>\<open>src/components/button/button.ts\<close>) overrides \<^verbatim>\<open>render\<close> only.\<close>

definition Button_hooks :: "(obj \<Rightarrow> string) \<Rightarrow> (string \<Rightarrow> node list) \<Rightarrow> hooks" where
  "Button_hooks template parse =
     Block_hooks\<lparr>render := (\<lambda>b. compile template parse (props b) b)\<rparr>"

section \<open>Reading the log\<close>

text \<open>
  The number of \<^verbatim>\<open>updated\<close> events and of \<^verbatim>\<open>render\<close> events in a log, the
  number of calls of the comparison hook, and the logs that hold nothing but
  replacements of the rendered node.
\<close>

fun updates_emitted :: "effect list \<Rightarrow> nat" where
  "updates_emitted [] = 0"
| "updates_emitted (Emit FLOW_CDU args # es) = Suc (updates_emitted es)"
| "updates_emitted (e # es) = updates_emitted es"

fun renders_emitted :: "effect list \<Rightarrow> nat" where
  "renders_emitted [] = 0"
| "renders_emitted (Emit FLOW_RENDER args # es) = Suc (renders_emitted es)"
| "renders_emitted (e # es) = renders_emitted es"

fun comparisons :: "effect list \<Rightarrow> nat" where
  "comparisons [] = 0"
| "comparisons (Called name # es) =
     (if name = ''componentDidUpdate'' then Suc (comparisons es) else comparisons es)"
| "comparisons (e # es) = comparisons es"

fun replacements_only :: "effect list \<Rightarrow> bool" where
  "replacements_only [] = True"
| "replacements_only (ReplaceWith old new # es) = replacements_only es"
| "replacements_only (e # es) = False"

text \<open>A component as the constructor leaves its bus: each of the four events registered once.\<close>

definition wired :: "component \<Rightarrow> bool" where
  "wired s = (bus s = [INIT, FLOW_CDM, FLOW_CDU, FLOW_RENDER])"

text \<open>What no rendering touches: the bus, the references, the props, the children, the identifier.\<close>

definition same_store :: "component \<Rightarrow> component \<Rightarrow> bool" where
  "same_store s s' =
     (bus s' = bus s \<and> props_ref s' = props_ref s \<and> next_ref s' = next_ref s \<and>
      props (self s') = props (self s) \<and> children (self s') = children (self s) \<and>
      block_id (self s') = block_id (self s))"

text \<open>Two nodes that differ at most in their listeners and their classes.\<close>

fun same_markup :: "node \<Rightarrow> node \<Rightarrow> bool" where
  "same_markup (Element t a c ls d k) (Element t' a' c' ls' d' k') =
     (t = t' \<and> a = a' \<and> d = d' \<and> k = k')"
| "same_markup (TextNode x) (TextNode y) = (x = y)"
| "same_markup _ _ = False"

section \<open>Describing a substitution\<close>


fun occurrences :: "string \<Rightarrow> node list \<Rightarrow> nat" where
  "occurrences i [] = 0"
| "occurrences i (TextNode x # ns) = occurrences i ns"
| "occurrences i (Element t a c ls d k # ns) =
     (if map_of a ''data-id'' = Some i then 1 else 0) + occurrences i k + occurrences i ns"














section \<open>Sample components\<close>

text \<open>
  A bare \<^verbatim>\<open>div\<close>, a component whose \<^verbatim>\<open>render\<close> returns it and whose comparison hook
  finds every write equal, and the base class as it is.
\<close>

definition div_element :: node where
  "div_element = Element ''div'' [] [] [] [] []"

definition quiet_hooks :: hooks where
  "quiet_hooks =
     Block_hooks\<lparr>componentDidUpdate := (\<lambda>b oldProps newProps. False),
                 render := (\<lambda>b. Inr [div_element])\<rparr>"

definition quiet_component :: component where
  "quiet_component = snd (Block_new quiet_hooks ''q1w2e3'' [(''label'', VStr ''Save'')])"

definition bare_component :: component where
  "bare_component = snd (Block_new Block_hooks ''a1b2c3'' [])"

text \<open>A component whose \<^verbatim>\<open>render\<close> returns a fragment with two root elements.\<close>

definition twin_hooks :: hooks where
  "twin_hooks =
     Block_hooks\<lparr>render := (\<lambda>b. Inr [Element ''header'' [] [] [] [] [],
                                      Element ''footer'' [] [] [] [] []])\<rparr>"

definition twin_component :: component where
  "twin_component = snd (Block_new twin_hooks ''t7u8v9'' [])"










text \<open>
  A component with a click listener and two classes in its props, rendered with two
  roots; an on-mounted hook that throws; an on-mounted hook that calls \<^verbatim>\<open>setProps\<close>.
\<close>

definition styled_component :: component where
  "styled_component =
     snd (Block_new twin_hooks ''s4t5u6''
            [(''events'', VObj [(''click'', VFun 7 ''() => {}'')]),
             (''classes'', VStr ''btn primary'')])"



section \<open>Evaluating the constructor on the samples\<close>

lemma emit_registered:
  "count_list (bus s) ev = Suc 0 \<Longrightarrow>
   emit ev args handler s = handler (record_effect (Emit ev args) s)"
  by (simp add: emit_def record_effect_def andThen_def ok_def split: prod.split option.split)

lemma quiet_component_eq:
  "quiet_component =
     \<lparr> self = \<lparr> block_id = ''q1w2e3'', props = [(''label'', VStr ''Save'')], children = [],
                element = Some div_element \<rparr>,
       props_ref = 0, next_ref = 1, bus = [INIT, FLOW_CDM, FLOW_CDU, FLOW_RENDER],
       trace = [Emit INIT [], Called ''init'', Emit FLOW_RENDER [], Called ''render''] \<rparr>"
  by (simp add: quiet_component_def Block_new_def getChildrenAndProps_def write_key_def registerEvents_def
      on_def emit_def init_internal_def call_hook_def andThen_def ok_def throw_def
      record_effect_def render_internal_def quiet_hooks_def Block_hooks_def div_element_def
      set_element_def addEvents_def events_of_def addClass_def classes_of_def Let_def)

lemma bare_component_eq:
  "bare_component =
     \<lparr> self = \<lparr> block_id = ''a1b2c3'', props = [], children = [], element = None \<rparr>,
       props_ref = 0, next_ref = 1, bus = [INIT, FLOW_CDM, FLOW_CDU, FLOW_RENDER],
       trace = [Emit INIT [], Called ''init'', Emit FLOW_RENDER [], Called ''render''] \<rparr>"
  by (simp add: bare_component_def Block_new_def getChildrenAndProps_def write_key_def registerEvents_def
      on_def emit_def init_internal_def call_hook_def andThen_def ok_def throw_def
      record_effect_def render_internal_def Block_hooks_def
      set_element_def addEvents_def events_of_def addClass_def classes_of_def Let_def)

section \<open>What rendering leaves alone\<close>

lemma same_store_refl: "same_store s s"
  by (simp add: same_store_def)

lemma same_store_trans: "same_store s t \<Longrightarrow> same_store t u \<Longrightarrow> same_store s u"
  by (simp add: same_store_def)

lemma same_store_set_element: "same_store s (set_element e s)"
  by (simp add: same_store_def set_element_def)

lemma trace_set_element: "trace (set_element e s) = trace s"
  by (simp add: set_element_def)

lemma addEvents_frame:
  "addEvents s = (r, s') \<Longrightarrow> same_store s s' \<and> trace s' = trace s"
  by (auto simp: addEvents_def throw_def ok_def same_store_refl same_store_set_element
      trace_set_element split: sum.splits option.splits prod.splits)

lemma removeEvents_frame:
  "removeEvents s = (r, s') \<Longrightarrow> same_store s s' \<and> trace s' = trace s"
  by (auto simp: removeEvents_def throw_def ok_def same_store_refl same_store_set_element
      trace_set_element split: sum.splits option.splits prod.splits if_splits)

lemma addClass_frame:
  "addClass s = (r, s') \<Longrightarrow> same_store s s' \<and> trace s' = trace s"
  by (auto simp: addClass_def throw_def ok_def same_store_refl same_store_set_element
      trace_set_element Let_def split: jsvalue.splits option.splits prod.splits if_splits)

lemma replaceWith_frame:
  "replaceWith n s = (r, s') \<Longrightarrow>
   same_store s s' \<and> (\<exists>rest. trace s' = trace s @ rest \<and> replacements_only rest)"
  by (auto simp: replaceWith_def throw_def ok_def same_store_def record_effect_def
      split: option.splits)

lemma andThen_cases:
  "andThen f g s = (r, s') \<Longrightarrow>
   (\<exists>t. f s = (None, t) \<and> g t = (r, s')) \<or> (\<exists>e. f s = (Some e, s') \<and> r = Some e)"
  by (auto simp: andThen_def split: prod.splits option.splits)

lemma replacements_only_append:
  "replacements_only (xs @ ys) = (replacements_only xs \<and> replacements_only ys)"
  by (induction xs rule: replacements_only.induct) auto

lemma render_internal_frame:
  assumes "render_internal hk s = (r, s')"
  shows "same_store s s' \<and>
         (\<exists>rest. trace s' = trace s @ Called ''render'' # rest \<and> replacements_only rest)"
proof -
  let ?s1 = "record_effect (Called ''render'') s"
  have s1: "same_store s ?s1" "trace ?s1 = trace s @ [Called ''render'']"
    by (simp_all add: same_store_def record_effect_def)
  show ?thesis
  proof (cases "render hk (self ?s1)")
    case (Inl e)
    with assms have "s' = ?s1"
      by (simp add: render_internal_def throw_def Let_def)
    with s1 show ?thesis by simp
  next
    case (Inr fragment)
    let ?n = "firstElementChild fragment"
    let ?pre = "if element (self ?s1) \<noteq> None then andThen removeEvents (replaceWith ?n) else ok"
    let ?post = "andThen (\<lambda>s2. ok (set_element ?n s2)) (andThen addEvents addClass)"
    from assms Inr have run: "andThen ?pre ?post ?s1 = (r, s')"
      by (simp add: render_internal_def Let_def)
    have pre: "same_store ?s1 t \<and> (\<exists>rest. trace t = trace ?s1 @ rest \<and> replacements_only rest)"
      if "?pre ?s1 = (q, t)" for q t
    proof (cases "element (self ?s1) \<noteq> None")
      case True
      with that have "andThen removeEvents (replaceWith ?n) ?s1 = (q, t)" by simp
      from andThen_cases [OF this] show ?thesis
      proof
        assume "\<exists>u. removeEvents ?s1 = (None, u) \<and> replaceWith ?n u = (q, t)"
        then obtain u where u: "removeEvents ?s1 = (None, u)" "replaceWith ?n u = (q, t)" by blast
        from removeEvents_frame [OF u(1)] replaceWith_frame [OF u(2)]
        show ?thesis by (auto intro: same_store_trans)
      next
        assume "\<exists>e. removeEvents ?s1 = (Some e, t) \<and> q = Some e"
        then obtain e where "removeEvents ?s1 = (Some e, t)" by blast
        from removeEvents_frame [OF this] show ?thesis by auto
      qed
    next
      case False
      with that have "t = ?s1" by (simp add: ok_def)
      then show ?thesis by (simp add: same_store_refl)
    qed
    have post: "same_store t u \<and> trace u = trace t" if "?post t = (q, u)" for q t u
    proof -
      from andThen_cases [OF that] have
        "andThen addEvents addClass (set_element ?n t) = (q, u)"
        by (auto simp: ok_def)
      from andThen_cases [OF this] show ?thesis
      proof
        assume "\<exists>w. addEvents (set_element ?n t) = (None, w) \<and> addClass w = (q, u)"
        then obtain w where w: "addEvents (set_element ?n t) = (None, w)" "addClass w = (q, u)"
          by blast
        from addEvents_frame [OF w(1)] addClass_frame [OF w(2)]
        show ?thesis
          by (auto simp: trace_set_element intro: same_store_trans same_store_set_element)
      next
        assume "\<exists>e. addEvents (set_element ?n t) = (Some e, u) \<and> q = Some e"
        then obtain e where "addEvents (set_element ?n t) = (Some e, u)" by blast
        from addEvents_frame [OF this] show ?thesis
          by (auto simp: trace_set_element intro: same_store_trans same_store_set_element)
      qed
    qed
    from andThen_cases [OF run] show ?thesis
    proof
      assume "\<exists>t. ?pre ?s1 = (None, t) \<and> ?post t = (r, s')"
      then obtain t where t: "?pre ?s1 = (None, t)" "?post t = (r, s')" by blast
      from pre [OF t(1)] post [OF t(2)] s1 show ?thesis
        by (auto intro: same_store_trans)
    next
      assume "\<exists>e. ?pre ?s1 = (Some e, s') \<and> r = Some e"
      then obtain e where "?pre ?s1 = (Some e, s')" by blast
      from pre [OF this] s1 show ?thesis
        by (auto intro: same_store_trans)
    qed
  qed
qed

section \<open>Emitting on the bus of a constructed component\<close>

lemma wired_count: "wired s \<Longrightarrow> count_list (bus s) ev = Suc 0"
  by (cases ev) (simp_all add: wired_def)

lemma emit_wired:
  "wired s \<Longrightarrow> emit ev args handler s = handler (record_effect (Emit ev args) s)"
proof -
  assume "wired s"
  then have "count_list (bus (record_effect (Emit ev args) s)) ev = Suc 0"
    by (cases ev) (simp_all add: wired_def record_effect_def)
  then show ?thesis
    by (simp add: emit_def Let_def andThen_def ok_def split: prod.split option.split)
qed

lemma same_store_wired: "same_store s s' \<Longrightarrow> wired s \<Longrightarrow> wired s'"
  by (simp add: same_store_def wired_def)

lemma same_store_record_effect: "same_store s (record_effect e s)"
  by (simp add: same_store_def record_effect_def)

lemma emit_render_frame:
  assumes "wired s" and "emit FLOW_RENDER [] (render_internal hk) s = (r, s')"
  shows "same_store s s' \<and>
         (\<exists>rest. trace s' = trace s @ Emit FLOW_RENDER [] # Called ''render'' # rest \<and>
                 replacements_only rest)"
proof -
  let ?s1 = "record_effect (Emit FLOW_RENDER []) s"
  from assms have "render_internal hk ?s1 = (r, s')"
    by (simp add: emit_wired)
  from render_internal_frame [OF this] show ?thesis
    by (auto simp: record_effect_def intro: same_store_trans [OF same_store_record_effect])
qed

section \<open>Counting events in the log\<close>

lemma updates_emitted_append:
  "updates_emitted (xs @ ys) = updates_emitted xs + updates_emitted ys"
  by (induction xs rule: updates_emitted.induct) auto

lemma renders_emitted_append:
  "renders_emitted (xs @ ys) = renders_emitted xs + renders_emitted ys"
  by (induction xs rule: renders_emitted.induct) auto

lemma comparisons_append:
  "comparisons (xs @ ys) = comparisons xs + comparisons ys"
  by (induction xs rule: comparisons.induct) auto

lemma replacements_only_counts:
  "replacements_only es \<Longrightarrow>
   updates_emitted es = 0 \<and> renders_emitted es = 0 \<and> comparisons es = 0"
  by (induction es rule: replacements_only.induct) auto

lemma proxy_set_unfold:
  assumes "wired s"
  shows "proxy_set hk prop v s =
     componentDidUpdate_internal hk (next_ref s, props (self s))
       (props_ref s, AList.update prop v (props (self s)))
       (record_effect
          (Emit FLOW_CDU [(next_ref s, props (self s)),
                          (props_ref s, AList.update prop v (props (self s)))])
          (s\<lparr>next_ref := Suc (next_ref s),
             self := (self s)\<lparr>props := AList.update prop v (props (self s))\<rparr>\<rparr>))"
proof -
  have "wired (s\<lparr>next_ref := Suc (next_ref s),
             self := (self s)\<lparr>props := AList.update prop v (props (self s))\<rparr>\<rparr>)"
    using assms by (simp add: wired_def)
  then show ?thesis
    by (simp add: proxy_set_def Let_def emit_wired)
qed

lemma proxy_set_counts:
  assumes "wired s" and "proxy_set hk prop v s = (r, s')"
  shows "wired s' \<and> next_ref s' = Suc (next_ref s) \<and>
         props (self s') = AList.update prop v (props (self s)) \<and>
         updates_emitted (trace s') = Suc (updates_emitted (trace s)) \<and>
         comparisons (trace s') = Suc (comparisons (trace s)) \<and>
         renders_emitted (trace s) \<le> renders_emitted (trace s')"
proof -
  let ?old = "(next_ref s, props (self s))"
  let ?new = "(props_ref s, AList.update prop v (props (self s)))"
  let ?s1 = "s\<lparr>next_ref := Suc (next_ref s),
                self := (self s)\<lparr>props := AList.update prop v (props (self s))\<rparr>\<rparr>"
  let ?s3 = "record_effect (Called ''componentDidUpdate'') (record_effect (Emit FLOW_CDU [?old, ?new]) ?s1)"
  have w3: "wired ?s3" and n3: "next_ref ?s3 = Suc (next_ref s)"
    and t3: "trace ?s3 = trace s @ [Emit FLOW_CDU [?old, ?new], Called ''componentDidUpdate'']"
    and p3: "props (self ?s3) = AList.update prop v (props (self s))"
    using assms(1) by (simp_all add: wired_def record_effect_def)
  have c3: "updates_emitted (trace ?s3) = Suc (updates_emitted (trace s))"
    "comparisons (trace ?s3) = Suc (comparisons (trace s))"
    "renders_emitted (trace ?s3) = renders_emitted (trace s)"
    by (simp_all add: t3 updates_emitted_append comparisons_append renders_emitted_append)
  show ?thesis
  proof (cases "componentDidUpdate hk (self ?s3) ?old ?new")
    case True
    with assms have "emit FLOW_RENDER [] (render_internal hk) ?s3 = (r, s')"
      by (simp add: proxy_set_unfold componentDidUpdate_internal_def Let_def)
    from emit_render_frame [OF w3 this] obtain rest where
      st: "same_store ?s3 s'" and
      tr: "trace s' = trace ?s3 @ Emit FLOW_RENDER [] # Called ''render'' # rest" and
      ro: "replacements_only rest"
      by blast
    from st w3 n3 p3 have "wired s'" "next_ref s' = Suc (next_ref s)"
      "props (self s') = AList.update prop v (props (self s))"
      by (simp_all add: same_store_def wired_def)
    moreover from replacements_only_counts [OF ro] c3
    have "updates_emitted (trace s') = Suc (updates_emitted (trace s))"
      "comparisons (trace s') = Suc (comparisons (trace s))"
      "renders_emitted (trace s) \<le> renders_emitted (trace s')"
      by (simp_all add: tr updates_emitted_append comparisons_append renders_emitted_append)
    ultimately show ?thesis by simp
  next
    case False
    with assms have "s' = ?s3"
      by (simp add: proxy_set_unfold componentDidUpdate_internal_def Let_def ok_def)
    with w3 n3 p3 c3 show ?thesis by simp
  qed
qed

lemma assign_all_counts:
  "wired s \<Longrightarrow> assign_all hk kvs s = (None, s') \<Longrightarrow>
   wired s' \<and> next_ref s' = next_ref s + length kvs \<and>
   props (self s') = fold (\<lambda>kv. AList.update (fst kv) (snd kv)) kvs (props (self s)) \<and>
   updates_emitted (trace s') = updates_emitted (trace s) + length kvs \<and>
   comparisons (trace s') = comparisons (trace s) + length kvs \<and>
   renders_emitted (trace s) \<le> renders_emitted (trace s')"
proof (induction kvs arbitrary: s)
  case Nil
  then show ?case by (simp add: ok_def)
next
  case (Cons kv kvs)
  obtain k v where kv: "kv = (k, v)" by (cases kv)
  from Cons.prems(2) kv have "andThen (proxy_set hk k v) (assign_all hk kvs) s = (None, s')"
    by simp
  from andThen_cases [OF this] obtain t where
    t: "proxy_set hk k v s = (None, t)" "assign_all hk kvs t = (None, s')"
    by auto
  from proxy_set_counts [OF Cons.prems(1) t(1)] Cons.IH [OF _ t(2)]
  show ?case by (simp add: kv)
qed

text \<open>The constructor leaves the bus wired, and \<^verbatim>\<open>setProps\<close> keeps it so.\<close>

lemma call_hook_wired: "wired s \<Longrightarrow> call_hook name h s = (r, t) \<Longrightarrow> wired t"
  by (auto simp: call_hook_def wired_def split: prod.splits)

lemma init_internal_wired:
  assumes "wired s" and "init_internal hk s = (r, s')"
  shows "wired s'"
proof -
  from assms(2) have
    "andThen (call_hook ''init'' (init hk)) (emit FLOW_RENDER [] (render_internal hk)) s = (r, s')"
    by (simp add: init_internal_def)
  from andThen_cases [OF this] show ?thesis
  proof
    assume "\<exists>t. call_hook ''init'' (init hk) s = (None, t) \<and>
        emit FLOW_RENDER [] (render_internal hk) t = (r, s')"
    then obtain t where t: "call_hook ''init'' (init hk) s = (None, t)"
      "emit FLOW_RENDER [] (render_internal hk) t = (r, s')"
      by blast
    from call_hook_wired [OF assms(1) t(1)] have wt: "wired t" .
    from emit_render_frame [OF wt t(2)] wt show ?thesis
      by (blast intro: same_store_wired)
  next
    assume "\<exists>e. call_hook ''init'' (init hk) s = (Some e, s') \<and> r = Some e"
    then obtain e where "call_hook ''init'' (init hk) s = (Some e, s')" by blast
    from call_hook_wired [OF assms(1) this] show ?thesis .
  qed
qed

lemma Block_new_wired: "wired (snd (Block_new hk i propsWithChildren))"
proof -
  obtain p c where pc: "getChildrenAndProps propsWithChildren = (p, c)"
    by (cases "getChildrenAndProps propsWithChildren")
  let ?s0 = "registerEvents
               \<lparr> self = \<lparr> block_id = i, props = p, children = c, element = None \<rparr>,
                 props_ref = 0, next_ref = 1, bus = [], trace = [] \<rparr>"
  have w0: "wired ?s0" by (simp add: wired_def registerEvents_def on_def)
  then have w1: "wired (record_effect (Emit INIT []) ?s0)"
    by (simp add: wired_def record_effect_def)
  have "Block_new hk i propsWithChildren = emit INIT [] (init_internal hk) ?s0"
    using pc by (simp add: Block_new_def)
  also have "\<dots> = init_internal hk (record_effect (Emit INIT []) ?s0)"
    by (rule emit_wired [OF w0])
  finally have "Block_new hk i propsWithChildren =
      init_internal hk (record_effect (Emit INIT []) ?s0)" .
  with init_internal_wired [OF w1, of hk] show ?thesis
    by (metis prod.collapse)
qed

lemma setProps_wired:
  assumes "wired s" and "setProps hk (VObj partial) s = (None, s')"
  shows "wired s'"
proof -
  from assms(2) have
    "andThen (assign_all hk partial) (emit FLOW_RENDER [] (render_internal hk)) s = (None, s')"
    by (simp add: setProps_def)
  from andThen_cases [OF this] obtain t where
    t: "assign_all hk partial s = (None, t)" "emit FLOW_RENDER [] (render_internal hk) t = (None, s')"
    by auto
  from assign_all_counts [OF assms(1) t(1)] have wt: "wired t" by simp
  from emit_render_frame [OF wt t(2)] wt show ?thesis
    by (blast intro: same_store_wired)
qed


section \<open>The node after a render\<close>

lemma same_markup_refl: "same_markup n n"
  by (cases n) simp_all

lemma same_markup_trans: "same_markup a b \<Longrightarrow> same_markup b c \<Longrightarrow> same_markup a c"
  by (cases a; cases b; cases c) simp_all

lemma addEventListener_markup: "same_markup el (addEventListener n l el)"
  by (cases el) simp_all

lemma classList_add_markup: "classList_add tok el = Inr el' \<Longrightarrow> same_markup el el'"
  by (cases el) (auto split: if_splits)

lemma add_listeners_markup: "add_listeners evs el = (r, el') \<Longrightarrow> same_markup el el'"
proof (induction evs arbitrary: el)
  case Nil
  then show ?case by (simp add: same_markup_refl)
next
  case (Cons ev evs)
  obtain n v where ev: "ev = (n, v)" by (cases ev)
  show ?case
  proof (cases "as_listener v")
    case (Inl e)
    with Cons.prems ev show ?thesis by (simp add: same_markup_refl)
  next
    case (Inr lo)
    show ?thesis
    proof (cases lo)
      case None
      with Cons.prems ev Inr have "add_listeners evs el = (r, el')" by simp
      then show ?thesis by (rule Cons.IH)
    next
      case (Some l)
      with Cons.prems ev Inr have "add_listeners evs (addEventListener n l el) = (r, el')"
        by simp
      from Cons.IH [OF this] show ?thesis
        by (rule same_markup_trans [OF addEventListener_markup])
    qed
  qed
qed

lemma add_classes_markup: "add_classes toks el = (r, el') \<Longrightarrow> same_markup el el'"
proof (induction toks arbitrary: el)
  case Nil
  then show ?case by (simp add: same_markup_refl)
next
  case (Cons tok toks)
  show ?case
  proof (cases "classList_add tok el")
    case (Inl e)
    with Cons.prems show ?thesis by (simp add: same_markup_refl)
  next
    case (Inr el1)
    with Cons.prems have "add_classes toks el1 = (r, el')" by simp
    from same_markup_trans [OF classList_add_markup [OF Inr] Cons.IH [OF this]]
    show ?thesis .
  qed
qed

text \<open>The rendered node after a step, against the node before it.\<close>

lemma addEvents_element:
  "addEvents s = (r, s') \<Longrightarrow>
   (case element (self s) of
      None \<Rightarrow> element (self s') = None
    | Some e \<Rightarrow> (\<exists>e'. element (self s') = Some e' \<and> same_markup e e'))"
  by (auto simp: addEvents_def throw_def ok_def set_element_def same_markup_refl
      dest: add_listeners_markup split: sum.splits option.splits prod.splits)

lemma addClass_element:
  "addClass s = (r, s') \<Longrightarrow>
   (case element (self s) of
      None \<Rightarrow> element (self s') = None
    | Some e \<Rightarrow> (\<exists>e'. element (self s') = Some e' \<and> same_markup e e'))"
  by (auto simp: addClass_def throw_def ok_def set_element_def same_markup_refl Let_def
      dest: add_classes_markup split: jsvalue.splits option.splits prod.splits if_splits)

lemma render_internal_element:
  assumes "render hk (self s) = Inr fragment" and "render_internal hk s = (None, s')"
  shows "case firstElementChild fragment of
           None \<Rightarrow> element (self s') = None
         | Some e \<Rightarrow> (\<exists>e'. element (self s') = Some e' \<and> same_markup e e')"
proof -
  let ?s1 = "record_effect (Called ''render'') s"
  let ?n = "firstElementChild fragment"
  let ?pre = "if element (self ?s1) \<noteq> None then andThen removeEvents (replaceWith ?n) else ok"
  let ?post = "andThen (\<lambda>s2. ok (set_element ?n s2)) (andThen addEvents addClass)"
  have "self ?s1 = self s" by (simp add: record_effect_def)
  with assms have "andThen ?pre ?post ?s1 = (None, s')"
    by (simp add: render_internal_def Let_def)
  from andThen_cases [OF this] obtain t where "?post t = (None, s')" by auto
  from andThen_cases [OF this] have "andThen addEvents addClass (set_element ?n t) = (None, s')"
    by (auto simp: ok_def)
  from andThen_cases [OF this] obtain u where
    u: "addEvents (set_element ?n t) = (None, u)" "addClass u = (None, s')"
    by auto
  have "element (self (set_element ?n t)) = ?n" by (simp add: set_element_def)
  with addEvents_element [OF u(1)] addClass_element [OF u(2)] show ?thesis
    by (auto split: option.splits intro: same_markup_trans)
qed

lemma twin_component_eq:
  "twin_component =
     \<lparr> self = \<lparr> block_id = ''t7u8v9'', props = [], children = [],
                element = Some (Element ''header'' [] [] [] [] []) \<rparr>,
       props_ref = 0, next_ref = 1, bus = [INIT, FLOW_CDM, FLOW_CDU, FLOW_RENDER],
       trace = [Emit INIT [], Called ''init'', Emit FLOW_RENDER [], Called ''render''] \<rparr>"
  by (simp add: twin_component_def Block_new_def getChildrenAndProps_def write_key_def registerEvents_def
      on_def emit_def init_internal_def call_hook_def andThen_def ok_def throw_def
      record_effect_def render_internal_def twin_hooks_def Block_hooks_def
      set_element_def addEvents_def events_of_def addClass_def classes_of_def Let_def)

lemma twin_render:
  "emit FLOW_RENDER [] (render_internal twin_hooks) twin_component =
     (None, twin_component\<lparr>trace := trace twin_component @
        [Emit FLOW_RENDER [], Called ''render'',
         ReplaceWith (Element ''header'' [] [] [] [] []) (Element ''header'' [] [] [] [] [])]\<rparr>)"
  by (simp add: twin_component_eq emit_def andThen_def ok_def throw_def
      record_effect_def render_internal_def twin_hooks_def Block_hooks_def
      set_element_def addEvents_def removeEvents_def replaceWith_def events_of_def
      addClass_def classes_of_def Let_def)

lemma bare_render:
  "emit FLOW_RENDER [] (render_internal Block_hooks) bare_component =
     (None, bare_component\<lparr>trace := trace bare_component @
        [Emit FLOW_RENDER [], Called ''render'']\<rparr>)"
  by (simp add: bare_component_eq emit_def andThen_def ok_def throw_def
      record_effect_def render_internal_def Block_hooks_def
      set_element_def addEvents_def removeEvents_def replaceWith_def events_of_def
      addClass_def classes_of_def Let_def)

section \<open>Finding and replacing in a fragment\<close>






lemma occurrences_append: "occurrences i (xs @ ys) = occurrences i xs + occurrences i ys"
  by (induction i xs rule: occurrences.induct) auto





section \<open>The two loops of \<^verbatim>\<open>compile\<close> on well-typed children\<close>



























section \<open>A render that returns normally\<close>

lemma firstElementChild_Element:
  "firstElementChild fragment = Some e \<Longrightarrow> \<exists>t a c ls d k. e = Element t a c ls d k"
  by (induction fragment rule: firstElementChild.induct) auto

lemma addEventListener_listeners:
  "listeners (addEventListener n l (Element t a c ls d k)) = (if (n, l) \<in> set ls then ls else ls @ [(n, l)])"
  "classList (addEventListener n l (Element t a c ls d k)) = c"
  by simp_all

lemma add_listeners_Element:
  "add_listeners evs (Element t a c ls d k) = (r, el') \<Longrightarrow>
   \<exists>ls'. el' = Element t a c ls' d k \<and> set ls \<subseteq> set ls' \<and>
     (r = None \<longrightarrow> (\<forall>name f src. (name, VFun f src) \<in> set evs \<longrightarrow> (name, Callback f) \<in> set ls'))"
proof (induction evs arbitrary: ls)
  case Nil
  then show ?case by auto
next
  case (Cons ev evs)
  obtain n v where ev: "ev = (n, v)" by (cases ev)
  show ?case
  proof (cases "as_listener v")
    case (Inl e)
    with Cons.prems ev show ?thesis by auto
  next
    case (Inr lo)
    show ?thesis
    proof (cases lo)
      case None
      with Cons.prems ev Inr have run: "add_listeners evs (Element t a c ls d k) = (r, el')"
        by simp
      from None Inr have "\<forall>f src. v \<noteq> VFun f src" by auto
      with Cons.IH [OF run] ev show ?thesis by (auto, blast)
    next
      case (Some l)
      let ?ls1 = "if (n, l) \<in> set ls then ls else ls @ [(n, l)]"
      from Some Cons.prems ev Inr
      have run: "add_listeners evs (Element t a c ?ls1 d k) = (r, el')"
        by simp
      from Cons.IH [OF run] obtain ls' where
        ls': "el' = Element t a c ls' d k" "set ?ls1 \<subseteq> set ls'"
          "r = None \<longrightarrow> (\<forall>name f src. (name, VFun f src) \<in> set evs \<longrightarrow> (name, Callback f) \<in> set ls')"
        by blast
      have in1: "(n, l) \<in> set ?ls1" by simp
      have sub: "set ls \<subseteq> set ?ls1" by auto
      have head: "\<forall>f src. v = VFun f src \<longrightarrow> (n, Callback f) \<in> set ls'"
        using Some Inr in1 ls'(2) by auto
      have "set ls \<subseteq> set ls'" using sub ls'(2) by blast
      moreover have "r = None \<longrightarrow>
          (\<forall>name f src. (name, VFun f src) \<in> set (ev # evs) \<longrightarrow> (name, Callback f) \<in> set ls')"
        using ls'(3) head ev by (auto; blast)
      ultimately show ?thesis using ls'(1) by blast
    qed
  qed
qed

lemma add_classes_Element:
  "add_classes toks (Element t a c ls d k) = (r, el') \<Longrightarrow>
   \<exists>c'. el' = Element t a c' ls d k \<and> set c \<subseteq> set c' \<and> (r = None \<longrightarrow> set toks \<subseteq> set c')"
proof (induction toks arbitrary: c)
  case Nil
  then show ?case by auto
next
  case (Cons tok toks)
  show ?case
  proof (cases "classList_add tok (Element t a c ls d k)")
    case (Inl e)
    with Cons.prems show ?thesis by auto
  next
    case (Inr el1)
    let ?c1 = "if tok \<in> set c then c else c @ [tok]"
    from Inr have el1: "el1 = Element t a ?c1 ls d k"
      by (auto split: if_splits)
    with Cons.prems Inr have run: "add_classes toks (Element t a ?c1 ls d k) = (r, el')"
      by simp
    from Cons.IH [OF run] obtain c' where
      c': "el' = Element t a c' ls d k" "set ?c1 \<subseteq> set c'" "r = None \<longrightarrow> set toks \<subseteq> set c'"
      by blast
    have "tok \<in> set ?c1" "set c \<subseteq> set ?c1" by auto
    with c' show ?thesis by auto
  qed
qed

text \<open>A render that returns normally, step by step.\<close>

lemma addEvents_normal:
  assumes "addEvents s = (None, s')"
  shows "\<exists>evs. events_of (props (self s)) = Inr evs \<and>
           (case element (self s) of
              None \<Rightarrow> s' = s
            | Some e \<Rightarrow> (\<exists>e1. add_listeners evs e = (None, e1) \<and> s' = set_element (Some e1) s))"
  using assms
  by (auto simp: addEvents_def throw_def ok_def split: sum.splits option.splits prod.splits)

lemma addClass_normal:
  assumes "addClass s = (None, s')"
  shows "if truthy (classes_of (props (self s)))
         then \<exists>str e1 e2. classes_of (props (self s)) = VStr str \<and> element (self s) = Some e1 \<and>
                add_classes (split_space str) e1 = (None, e2) \<and> s' = set_element (Some e2) s
         else s' = s"
  using assms
  by (auto simp: addClass_def throw_def ok_def Let_def
      split: jsvalue.splits option.splits prod.splits if_splits)

lemma render_internal_normal:
  assumes "render hk (self s) = Inr fragment" and "render_internal hk s = (None, s')"
  shows "\<exists>evs. events_of (props (self s)) = Inr evs \<and>
     (case firstElementChild fragment of
        None \<Rightarrow> element (self s') = None \<and> \<not> truthy (classes_of (props (self s)))
      | Some e \<Rightarrow>
          (\<exists>e1 e2. add_listeners evs e = (None, e1) \<and>
             (if truthy (classes_of (props (self s)))
              then \<exists>str. classes_of (props (self s)) = VStr str \<and>
                     add_classes (split_space str) e1 = (None, e2)
              else e2 = e1) \<and>
             element (self s') = Some e2))"
proof -
  let ?s1 = "record_effect (Called ''render'') s"
  let ?n = "firstElementChild fragment"
  let ?pre = "if element (self ?s1) \<noteq> None then andThen removeEvents (replaceWith ?n) else ok"
  let ?post = "andThen (\<lambda>s2. ok (set_element ?n s2)) (andThen addEvents addClass)"
  have self1: "self ?s1 = self s" by (simp add: record_effect_def)
  with assms have run: "andThen ?pre ?post ?s1 = (None, s')"
    by (simp add: render_internal_def Let_def)
  from andThen_cases [OF run] obtain t where t: "?pre ?s1 = (None, t)" "?post t = (None, s')"
    by auto
  have pt: "props (self t) = props (self s)"
  proof (cases "element (self ?s1) \<noteq> None")
    case True
    with t(1) have "andThen removeEvents (replaceWith ?n) ?s1 = (None, t)" by simp
    from andThen_cases [OF this] obtain u where
      u: "removeEvents ?s1 = (None, u)" "replaceWith ?n u = (None, t)"
      by auto
    from removeEvents_frame [OF u(1)] replaceWith_frame [OF u(2)] self1
    show ?thesis by (simp add: same_store_def)
  next
    case False
    with t(1) self1 show ?thesis by (simp add: ok_def)
  qed
  let ?t1 = "set_element ?n t"
  have p1: "props (self ?t1) = props (self s)" and e1: "element (self ?t1) = ?n"
    using pt by (simp_all add: set_element_def)
  from andThen_cases [OF t(2)] have "andThen addEvents addClass ?t1 = (None, s')"
    by (auto simp: ok_def)
  from andThen_cases [OF this] obtain u where
    u: "addEvents ?t1 = (None, u)" "addClass u = (None, s')"
    by auto
  from addEvents_normal [OF u(1)] p1 e1 obtain evs where
    evs: "events_of (props (self s)) = Inr evs"
    and ev: "case ?n of None \<Rightarrow> u = ?t1
             | Some e \<Rightarrow> (\<exists>e1. add_listeners evs e = (None, e1) \<and> u = set_element (Some e1) ?t1)"
    by auto
  note cl = addClass_normal [OF u(2)]
  show ?thesis
  proof (cases ?n)
    case None
    with ev have u1: "u = ?t1" by simp
    with p1 e1 None have pu: "props (self u) = props (self s)" "element (self u) = None"
      by simp_all
    with cl have "\<not> truthy (classes_of (props (self s)))" "s' = u"
      by (auto split: if_splits)
    with pu None evs show ?thesis by simp
  next
    case (Some e)
    with ev obtain e1 where e1': "add_listeners evs e = (None, e1)" "u = set_element (Some e1) ?t1"
      by auto
    then have pu: "props (self u) = props (self s)" "element (self u) = Some e1"
      using p1 by (simp_all add: set_element_def)
    show ?thesis
    proof (cases "truthy (classes_of (props (self s)))")
      case True
      with cl pu obtain str e2 where
        "classes_of (props (self s)) = VStr str" "add_classes (split_space str) e1 = (None, e2)"
        "s' = set_element (Some e2) u"
        by auto
      with Some evs e1'(1) True show ?thesis
        by (auto simp: set_element_def)
    next
      case False
      with cl pu have "s' = u" by simp
      with Some evs e1'(1) False pu show ?thesis by auto
    qed
  qed
qed

lemma styled_component_eq:
  "styled_component =
     \<lparr> self = \<lparr> block_id = ''s4t5u6'',
                props = [(''events'', VObj [(''click'', VFun 7 ''() => {}'')]),
                         (''classes'', VStr ''btn primary'')],
                children = [],
                element = Some (Element ''header'' [] [''btn'', ''primary'']
                                  [(''click'', Callback 7)] [] []) \<rparr>,
       props_ref = 0, next_ref = 1, bus = [INIT, FLOW_CDM, FLOW_CDU, FLOW_RENDER],
       trace = [Emit INIT [], Called ''init'', Emit FLOW_RENDER [], Called ''render''] \<rparr>"
  by (simp add: styled_component_def Block_new_def getChildrenAndProps_def write_key_def
      registerEvents_def on_def emit_def init_internal_def call_hook_def andThen_def ok_def
      throw_def record_effect_def render_internal_def twin_hooks_def Block_hooks_def
      set_element_def addEvents_def events_of_def addClass_def classes_of_def Let_def
      is_space_def)

lemma styled_render:
  "emit FLOW_RENDER [] (render_internal twin_hooks) styled_component =
     (None, styled_component\<lparr>trace := trace styled_component @
        [Emit FLOW_RENDER [], Called ''render'',
         ReplaceWith (Element ''header'' [] [''btn'', ''primary''] [] [] [])
                     (Element ''header'' [] [] [] [] [])]\<rparr>)"
  by (simp add: styled_component_eq emit_def andThen_def ok_def throw_def
      record_effect_def render_internal_def twin_hooks_def Block_hooks_def
      set_element_def addEvents_def removeEvents_def replaceWith_def events_of_def
      addClass_def classes_of_def Let_def is_space_def)

section \<open>Mounting the samples\<close>




section \<open>Claims\<close>

text \<open>
  C10. Calling \<^verbatim>\<open>setProps\<close> with \<^verbatim>\<open>null\<close> or with \<^verbatim>\<open>undefined\<close> does nothing at
  all: the call returns normally and the whole component is as before, so the property
  store is unchanged and the log has no new \<^verbatim>\<open>updated\<close> or \<^verbatim>\<open>render\<close> event.
\<close>

theorem C10_setProps_null_noop:
  "setProps hk VNull s = (None, s) \<and> setProps hk VUndefined s = (None, s)"
  by (simp add: setProps_def ok_def)

theorem C10_setProps_null_noop_witness:
  "setProps quiet_hooks VNull quiet_component = (None, quiet_component) \<and>
   setProps quiet_hooks VUndefined quiet_component = (None, quiet_component)"
  using C10_setProps_null_noop [of quiet_hooks quiet_component] by simp

text \<open>
  C7. Deleting a key of the property store always fails with \<^verbatim>\<open>InvalidOperation\<close>,
  and the component, its property store included, is left as it was.
\<close>

theorem C7_deleteProperty_fails:
  "proxy_deleteProperty prop s = (Some InvalidOperation, s) \<and>
   props (self (snd (proxy_deleteProperty prop s))) = props (self s)"
  by (simp add: proxy_deleteProperty_def throw_def)

theorem C7_deleteProperty_fails_witness:
  "proxy_deleteProperty ''label'' quiet_component = (Some InvalidOperation, quiet_component) \<and>
   props (self (snd (proxy_deleteProperty ''label'' quiet_component))) = [(''label'', VStr ''Save'')]"
  using C7_deleteProperty_fails [of "''label''" quiet_component]
  by (simp add: quiet_component_eq)

text \<open>
  C9. On a component whose rendered node is missing (\<^verbatim>\<open>getContent()\<close> is \<^verbatim>\<open>null\<close>),
  \<^verbatim>\<open>show()\<close> and \<^verbatim>\<open>hide()\<close> fail on the missing node with a \<^verbatim>\<open>TypeError\<close>; they
  are not silent, and the component is left as it was.
\<close>

theorem C9_show_hide_null:
  "getContent s = None \<Longrightarrow>
   show_block s = (Some TypeError, s) \<and> hide s = (Some TypeError, s)"
  by (simp add: show_block_def hide_def throw_def)

theorem C9_show_hide_null_witness:
  "getContent bare_component = None \<and>
   show_block bare_component = (Some TypeError, bare_component) \<and>
   hide bare_component = (Some TypeError, bare_component)"
proof -
  have h: "getContent bare_component = None"
    by (simp add: getContent_def bare_component_eq)
  show ?thesis using h C9_show_hide_null [OF h] by simp
qed




text \<open>
  C5. A write of a top-level key through the props proxy takes a shallow copy of the
  props before the write (a new object holding the old contents), performs the write,
  and emits \<^verbatim>\<open>updated\<close> with the copy and the props; the handler calls the comparison
  hook on the two, and \<^verbatim>\<open>render\<close> is emitted exactly when the hook returns true.
  The hook of the base class is the inequality of the two references.
\<close>

theorem C5_write_through_proxy:
  assumes "wired s"
    and "oldProps = (next_ref s, props (self s))"
    and "newProps = (props_ref s, AList.update prop v (props (self s)))"
    and "gate = componentDidUpdate hk ((self s)\<lparr>props := snd newProps\<rparr>) oldProps newProps"
    and "proxy_set hk prop v s = (r, s')"
  shows "props (self s') = AList.update prop v (props (self s)) \<and>
         (\<exists>rest. trace s' =
            trace s @ [Emit FLOW_CDU [oldProps, newProps], Called ''componentDidUpdate''] @
              (if gate then Emit FLOW_RENDER [] # Called ''render'' # rest else []) \<and>
            replacements_only rest) \<and>
         renders_emitted (trace s') = renders_emitted (trace s) + (if gate then 1 else 0) \<and>
         componentDidUpdate Block_hooks b oldProps newProps = (fst oldProps \<noteq> fst newProps)"
proof -
  let ?s1 = "s\<lparr>next_ref := Suc (next_ref s),
                self := (self s)\<lparr>props := AList.update prop v (props (self s))\<rparr>\<rparr>"
  let ?s2 = "record_effect (Emit FLOW_CDU [oldProps, newProps]) ?s1"
  let ?s3 = "record_effect (Called ''componentDidUpdate'') ?s2"
  have run: "componentDidUpdate_internal hk oldProps newProps ?s2 = (r, s')"
    using assms(5) by (simp add: proxy_set_unfold [OF assms(1)] assms(2,3))
  have g: "componentDidUpdate hk (self ?s3) oldProps newProps = gate"
    by (simp add: assms(3,4) record_effect_def)
  have t3: "trace ?s3 = trace s @ [Emit FLOW_CDU [oldProps, newProps], Called ''componentDidUpdate'']"
    by (simp add: record_effect_def)
  have p3: "props (self ?s3) = AList.update prop v (props (self s))"
    by (simp add: record_effect_def)
  have w3: "wired ?s3"
    using assms(1) by (simp add: wired_def record_effect_def)
  have dflt: "componentDidUpdate Block_hooks b oldProps newProps = (fst oldProps \<noteq> fst newProps)"
    by (simp add: Block_hooks_def)
  show ?thesis
  proof (cases gate)
    case True
    with run g have "emit FLOW_RENDER [] (render_internal hk) ?s3 = (r, s')"
      by (simp add: componentDidUpdate_internal_def Let_def)
    from emit_render_frame [OF w3 this] obtain rest where
      st: "same_store ?s3 s'" and
      tr: "trace s' = trace ?s3 @ Emit FLOW_RENDER [] # Called ''render'' # rest" and
      ro: "replacements_only rest"
      by blast
    from st p3 have "props (self s') = AList.update prop v (props (self s))"
      by (simp add: same_store_def)
    moreover from tr t3 have tr': "trace s' =
            trace s @ [Emit FLOW_CDU [oldProps, newProps], Called ''componentDidUpdate''] @
              Emit FLOW_RENDER [] # Called ''render'' # rest"
      by simp
    moreover have "renders_emitted (trace s') = renders_emitted (trace s) + 1"
      using replacements_only_counts [OF ro] by (simp add: tr' renders_emitted_append)
    ultimately show ?thesis using True ro dflt by auto
  next
    case False
    with run g have "s' = ?s3"
      by (simp add: componentDidUpdate_internal_def Let_def ok_def)
    moreover have "\<exists>rest. replacements_only rest"
      by (rule exI [of _ "[]"]) simp
    ultimately show ?thesis using False t3 p3 dflt
      by (simp add: renders_emitted_append)
  qed
qed

theorem C5_write_through_proxy_witness:
  "wired bare_component \<and>
   proxy_set Block_hooks ''label'' (VStr ''Save'') bare_component =
     (None, bare_component\<lparr>
        self := (self bare_component)\<lparr>props := [(''label'', VStr ''Save'')]\<rparr>,
        next_ref := 2,
        trace := trace bare_component @
          [Emit FLOW_CDU [(1, []), (0, [(''label'', VStr ''Save'')])],
           Called ''componentDidUpdate'', Emit FLOW_RENDER [], Called ''render'']\<rparr>) \<and>
   componentDidUpdate Block_hooks ((self bare_component)\<lparr>props := [(''label'', VStr ''Save'')]\<rparr>)
     (1, []) (0, [(''label'', VStr ''Save'')]) \<and>
   renders_emitted (trace (snd (proxy_set Block_hooks ''label'' (VStr ''Save'') bare_component))) =
     renders_emitted (trace bare_component) + 1"
proof -
  have w: "wired bare_component"
    by (simp add: wired_def bare_component_eq)
  have o: "((1::nat), ([]::obj)) = (next_ref bare_component, props (self bare_component))"
    by (simp add: bare_component_eq)
  have n: "((0::nat), [(''label'', VStr ''Save'')]) =
      (props_ref bare_component, AList.update ''label'' (VStr ''Save'') (props (self bare_component)))"
    by (simp add: bare_component_eq)
  have g: "True = componentDidUpdate Block_hooks
      ((self bare_component)\<lparr>props := snd ((0::nat), [(''label'', VStr ''Save'')])\<rparr>)
      (1, []) (0, [(''label'', VStr ''Save'')])"
    by (simp add: Block_hooks_def)
  have run: "proxy_set Block_hooks ''label'' (VStr ''Save'') bare_component =
     (None, bare_component\<lparr>
        self := (self bare_component)\<lparr>props := [(''label'', VStr ''Save'')]\<rparr>,
        next_ref := 2,
        trace := trace bare_component @
          [Emit FLOW_CDU [(1, []), (0, [(''label'', VStr ''Save'')])],
           Called ''componentDidUpdate'', Emit FLOW_RENDER [], Called ''render'']\<rparr>)"
    by (simp add: bare_component_eq proxy_set_def emit_def componentDidUpdate_internal_def
      andThen_def ok_def throw_def record_effect_def render_internal_def Block_hooks_def
      set_element_def addEvents_def events_of_def addClass_def classes_of_def Let_def)
  have pair: "proxy_set Block_hooks ''label'' (VStr ''Save'') bare_component =
      (fst (proxy_set Block_hooks ''label'' (VStr ''Save'') bare_component),
       snd (proxy_set Block_hooks ''label'' (VStr ''Save'') bare_component))"
    by simp
  from C5_write_through_proxy [OF w o n g pair]
  have "renders_emitted (trace (snd (proxy_set Block_hooks ''label'' (VStr ''Save'') bare_component))) =
     renders_emitted (trace bare_component) + 1"
    by simp
  with w run g show ?thesis by simp
qed




text \<open>
  C1, at the input where the code departs from it. The component \<open>quiet_component\<close>
  has a comparison hook that judges every write equal. \<^verbatim>\<open>setProps\<close> with the label
  it already has calls the hook, which answers false, and line 118 emits \<^verbatim>\<open>render\<close>
  all the same: the rendered node is replaced. A write of the same key through the
  proxy alone (\<open>proxy_set\<close>) is held back by the hook.
\<close>

theorem C1_setProps_renders_when_equal:
  "\<not> componentDidUpdate quiet_hooks (self quiet_component)
       (1, [(''label'', VStr ''Save'')]) (0, [(''label'', VStr ''Save'')]) \<and>
   getContent quiet_component = Some div_element \<and>
   setProps quiet_hooks (VObj [(''label'', VStr ''Save'')]) quiet_component =
     (None, quiet_component\<lparr>
        next_ref := 2,
        trace := trace quiet_component @
          [Emit FLOW_CDU [(1, [(''label'', VStr ''Save'')]), (0, [(''label'', VStr ''Save'')])],
           Called ''componentDidUpdate'',
           Emit FLOW_RENDER [], Called ''render'', ReplaceWith div_element div_element]\<rparr>)"
  by (simp add: quiet_component_eq setProps_def proxy_set_def emit_def getContent_def
      componentDidUpdate_internal_def andThen_def ok_def throw_def
      record_effect_def render_internal_def quiet_hooks_def Block_hooks_def div_element_def
      set_element_def addEvents_def removeEvents_def replaceWith_def events_of_def
      addClass_def classes_of_def Let_def)

text \<open>
  C3, at the input where the code departs from it. An array in the construction bag
  that holds no \<^verbatim>\<open>Block\<close> (an empty one too) reaches neither \<^verbatim>\<open>children[key] = value\<close>
  nor \<^verbatim>\<open>props[key] = value\<close>: its key is in neither map. An array that holds a
  \<^verbatim>\<open>Block\<close> and other values becomes a child sequence as a whole.
\<close>

theorem C3_array_without_block_dropped:
  "getChildrenAndProps [(''label'', VStr ''Save''), (''items'', VArr [VStr ''a'', VStr ''b'']),
                        (''none'', VArr [])] =
     ([(''label'', VStr ''Save'')], []) \<and>
   getChildrenAndProps [(''mixed'', VArr [VStr ''a'', VBlock ''c1d2e3'' None])] =
     ([], [(''mixed'', VArr [VStr ''a'', VBlock ''c1d2e3'' None])])"
  by (simp add: getChildrenAndProps_def write_key_def)

text \<open>
  C4, as amended. After construction, an emission of \<^verbatim>\<open>render\<close> that returns normally
  leaves \<^verbatim>\<open>getContent()\<close> at \<^verbatim>\<open>null\<close> when the fragment the render hook returned
  holds no element, and otherwise at the first root element of that fragment after
  \<^verbatim>\<open>_addEvents\<close> and \<^verbatim>\<open>_addClass\<close> have worked on it: the same tag, attributes and
  children, every function of \<^verbatim>\<open>props.events\<close> registered as a listener under its
  key, and every class name of \<^verbatim>\<open>props.classes\<close> in its class list. No check of the
  number of roots exists: the claim as stated fails on the base class, whose empty
  fragment leaves \<^verbatim>\<open>getContent()\<close> null without any error, and on a fragment of two
  roots, which is cut to its first root without any error.
\<close>

theorem C4_render_keeps_first_root:
  assumes "wired s" and "render hk (self s) = Inr fragment"
    and "emit FLOW_RENDER [] (render_internal hk) s = (None, s')"
  shows "\<exists>evs. events_of (props (self s)) = Inr evs \<and>
     (case firstElementChild fragment of
        None \<Rightarrow> getContent s' = None
      | Some e \<Rightarrow>
          (\<exists>e1 e2. add_listeners evs e = (None, e1) \<and>
             (if truthy (classes_of (props (self s)))
              then \<exists>str. classes_of (props (self s)) = VStr str \<and>
                     add_classes (split_space str) e1 = (None, e2) \<and>
                     set (split_space str) \<subseteq> set (classList e2)
              else e2 = e1) \<and>
             getContent s' = Some e2 \<and> same_markup e e2 \<and>
             (\<forall>name f src. (name, VFun f src) \<in> set evs \<longrightarrow>
                (name, Callback f) \<in> set (listeners e2))))"
proof -
  let ?s1 = "record_effect (Emit FLOW_RENDER []) s"
  have self1: "self ?s1 = self s" by (simp add: record_effect_def)
  with assms have "render hk (self ?s1) = Inr fragment" "render_internal hk ?s1 = (None, s')"
    by (simp_all add: emit_wired)
  from render_internal_normal [OF this, unfolded self1] obtain evs where
    evs: "events_of (props (self s)) = Inr evs" and
    rest: "case firstElementChild fragment of
        None \<Rightarrow> element (self s') = None \<and> \<not> truthy (classes_of (props (self s)))
      | Some e \<Rightarrow>
          (\<exists>e1 e2. add_listeners evs e = (None, e1) \<and>
             (if truthy (classes_of (props (self s)))
              then \<exists>str. classes_of (props (self s)) = VStr str \<and>
                     add_classes (split_space str) e1 = (None, e2)
              else e2 = e1) \<and>
             element (self s') = Some e2)"
    by auto
  show ?thesis
  proof (cases "firstElementChild fragment")
    case None
    with evs rest show ?thesis by (simp add: getContent_def)
  next
    case (Some e)
    from firstElementChild_Element [OF Some] obtain t a c ls d k where
      e: "e = Element t a c ls d k" by blast
    from rest Some obtain e1 e2 where
      l: "add_listeners evs e = (None, e1)" and
      c: "if truthy (classes_of (props (self s)))
          then \<exists>str. classes_of (props (self s)) = VStr str \<and>
                 add_classes (split_space str) e1 = (None, e2)
          else e2 = e1" and
      g: "element (self s') = Some e2"
      by auto
    from add_listeners_Element [OF l [unfolded e]] obtain ls' where
      e1: "e1 = Element t a c ls' d k" and
      ls': "\<forall>name f src. (name, VFun f src) \<in> set evs \<longrightarrow> (name, Callback f) \<in> set ls'"
      by blast
    have fin: "(if truthy (classes_of (props (self s)))
              then \<exists>str. classes_of (props (self s)) = VStr str \<and>
                     add_classes (split_space str) e1 = (None, e2) \<and>
                     set (split_space str) \<subseteq> set (classList e2)
              else e2 = e1) \<and> same_markup e e2 \<and> listeners e2 = ls'"
    proof (cases "truthy (classes_of (props (self s)))")
      case True
      with c obtain str where str: "classes_of (props (self s)) = VStr str"
        "add_classes (split_space str) e1 = (None, e2)"
        by auto
      from add_classes_Element [OF str(2) [unfolded e1]] obtain c' where
        "e2 = Element t a c' ls' d k" "set (split_space str) \<subseteq> set c'"
        by blast
      with True str e show ?thesis by simp
    next
      case False
      with c e e1 show ?thesis by simp
    qed
    with evs Some l g ls' show ?thesis
      by (auto simp: getContent_def)
  qed
qed

theorem C4_render_keeps_first_root_witness:
  "wired styled_component \<and>
   render twin_hooks (self styled_component) =
     Inr [Element ''header'' [] [] [] [] [], Element ''footer'' [] [] [] [] []] \<and>
   fst (emit FLOW_RENDER [] (render_internal twin_hooks) styled_component) = None \<and>
   getContent (snd (emit FLOW_RENDER [] (render_internal twin_hooks) styled_component)) =
     Some (Element ''header'' [] [''btn'', ''primary''] [(''click'', Callback 7)] [] []) \<and>
   (\<exists>evs. events_of (props (self styled_component)) = Inr evs)"
proof -
  have w: "wired styled_component"
    by (simp add: wired_def styled_component_eq)
  have f: "render twin_hooks (self styled_component) =
     Inr [Element ''header'' [] [] [] [] [], Element ''footer'' [] [] [] [] []]"
    by (simp add: twin_hooks_def Block_hooks_def)
  have ok: "fst (emit FLOW_RENDER [] (render_internal twin_hooks) styled_component) = None"
    by (simp add: styled_render)
  then have run: "emit FLOW_RENDER [] (render_internal twin_hooks) styled_component =
      (None, snd (emit FLOW_RENDER [] (render_internal twin_hooks) styled_component))"
    by (simp add: prod_eq_iff)
  have g: "getContent (snd (emit FLOW_RENDER [] (render_internal twin_hooks) styled_component)) =
     Some (Element ''header'' [] [''btn'', ''primary''] [(''click'', Callback 7)] [] [])"
    by (simp add: styled_render getContent_def) (simp add: styled_component_eq)
  from C4_render_keeps_first_root [OF w f run]
  have "\<exists>evs. events_of (props (self styled_component)) = Inr evs" by blast
  with w f ok g show ?thesis by simp
qed

theorem C4_single_root_counterexample:
  "fst (Block_new Block_hooks ''a1b2c3'' []) = None \<and>
   fst (emit FLOW_RENDER [] (render_internal Block_hooks) bare_component) = None \<and>
   getContent (snd (emit FLOW_RENDER [] (render_internal Block_hooks) bare_component)) = None \<and>
   fst (Block_new twin_hooks ''t7u8v9'' []) = None \<and>
   fst (emit FLOW_RENDER [] (render_internal twin_hooks) twin_component) = None \<and>
   getContent (snd (emit FLOW_RENDER [] (render_internal twin_hooks) twin_component)) =
     Some (Element ''header'' [] [] [] [] [])"
proof -
  have "fst (Block_new Block_hooks ''a1b2c3'' []) = None"
    by (simp add: Block_new_def getChildrenAndProps_def write_key_def registerEvents_def
      on_def emit_def init_internal_def call_hook_def andThen_def ok_def throw_def
      record_effect_def render_internal_def Block_hooks_def
      set_element_def addEvents_def events_of_def addClass_def classes_of_def Let_def)
  moreover have "fst (Block_new twin_hooks ''t7u8v9'' []) = None"
    by (simp add: Block_new_def getChildrenAndProps_def write_key_def registerEvents_def
      on_def emit_def init_internal_def call_hook_def andThen_def ok_def throw_def
      record_effect_def render_internal_def twin_hooks_def Block_hooks_def
      set_element_def addEvents_def events_of_def addClass_def classes_of_def Let_def)
  moreover have "getContent (snd (emit FLOW_RENDER [] (render_internal Block_hooks) bare_component)) = None"
    by (simp add: bare_render getContent_def) (simp add: bare_component_eq)
  moreover have "getContent (snd (emit FLOW_RENDER [] (render_internal twin_hooks) twin_component)) =
     Some (Element ''header'' [] [] [] [] [])"
    by (simp add: twin_render getContent_def) (simp add: twin_component_eq)
  ultimately show ?thesis by (simp add: bare_render twin_render)
qed




end
